theory Spec2Isabelle
  imports Complex_Main "HOL-Library.Product_Lexorder" "HOL-Library.Multiset"
begin

section \<open>Qliz: a shallow embedding of the quiz session and its stores\<close>

text \<open>
  The program is a single Python class \<open>Qliz\<close> driving a curses terminal. The model keeps
  what decides the behaviour of a game: the selection of questions, the timed loop of a
  question, the tallies of a session, the high-score test, the ranking for display, and the
  two JSON stores. What the terminal shows is left out; what the terminal and the clock give
  back (key codes, readings of \<open>time.time()\<close>) is an input of the model.

  Python integers are \<open>int\<close>. Times are Python floats, idealised here as \<open>real\<close>; every
  concrete run below uses readings that floats represent exactly.
\<close>

subsection \<open>Errors and runs\<close>

text \<open>
  The exceptions the modelled code can raise and does not catch. A run that needs a clock
  reading or a blocking key press that the environment has not supplied is \<open>Pending\<close>:
  the program is still waiting.
\<close>

datatype error = ZeroDivisionError | IndexError | ValueError | JSONDecodeError

datatype 'a run = Pending | Raised error | Done 'a

subsection \<open>Data\<close>

text \<open>A question as \<open>load_quiz_config\<close> stores it: keys id, question, options, correct, explanation.\<close>

record question =
  qid :: int
  question :: string
  options :: "string list"
  correct :: int
  explanation :: string

text \<open>The dictionary \<open>question_detail\<close> appended to \<open>player.question_details\<close>.\<close>

record question_detail =
  question_id :: int
  question_text :: string
  detail_options :: "string list"
  correct_answer :: int
  player_answer :: "int option"
  is_correct :: bool
  time_taken :: real
  timed_out :: bool

text \<open>
  A scoreboard entry (the dictionary \<open>player_data\<close>), and the class \<open>Player\<close>, which has the
  same attributes and the list of question details.
\<close>

record entry =
  name :: string
  email :: string
  marketing_consent :: bool
  score :: int
  total_time :: real
  timestamp :: string

record player = entry +
  question_details :: "question_detail list"

text \<open>The part of \<open>quiz_metadata\<close> that is read; \<open>None\<close> is an absent key.\<close>

record quiz_metadata =
  title :: "string option"
  description :: "string option"
  questions_per_game :: "int option"
  time_per_question :: "real option"

text \<open>The environment: the successive readings of \<open>time.time()\<close> and the key codes to come.\<close>

record world =
  clock :: "real list"
  keys :: "int list"

definition time_time :: "world \<Rightarrow> (real \<times> world) option" where
  "time_time w = (case clock w of [] \<Rightarrow> None | t # ts \<Rightarrow> Some (t, w\<lparr>clock := ts\<rparr>))"

text \<open>\<open>getch\<close> under \<open>nodelay(True)\<close>: the code -1 when no key is waiting.\<close>

definition getch_nodelay :: "world \<Rightarrow> int \<times> world" where
  "getch_nodelay w = (case keys w of [] \<Rightarrow> (-1, w) | k # ks \<Rightarrow> (k, w\<lparr>keys := ks\<rparr>))"

text \<open>Blocking \<open>getch\<close>: waits for a key.\<close>

definition getch :: "world \<Rightarrow> (int \<times> world) option" where
  "getch w = (case keys w of [] \<Rightarrow> None | k # ks \<Rightarrow> Some (k, w\<lparr>keys := ks\<rparr>))"

definition ord :: "char \<Rightarrow> int" where
  "ord c = of_char c"

text \<open>The key codes of the curses library.\<close>

definition KEY_DOWN :: int where "KEY_DOWN = 258"
definition KEY_UP :: int where "KEY_UP = 259"

text \<open>
  \<open>xs[i]\<close> in Python: an index from \<open>-len(xs)\<close> up to \<open>-1\<close> counts back from the end, and
  an index outside \<open>-len(xs) .. len(xs) - 1\<close> raises.
\<close>

definition py_index :: "'a list \<Rightarrow> int \<Rightarrow> error + 'a" where
  "py_index xs i =
     (if 0 \<le> i \<and> i < int (length xs) then Inr (xs ! nat i)
      else if - int (length xs) \<le> i \<and> i < 0 then Inr (xs ! nat (int (length xs) + i))
      else Inl IndexError)"

subsection \<open>The timed question loop\<close>

record loop_state =
  selected_idx :: int
  answered :: bool
  answer :: "int option"

definition commit :: "int \<Rightarrow> loop_state \<Rightarrow> loop_state" where
  "commit i s = s\<lparr>answer := Some i, answered := True\<rparr>"

text \<open>
  The body of the \<open>try\<close> in the loop of \<open>play_game\<close>, after the key was read: the chain of
  \<open>if\<close>/\<open>elif\<close> on the key, in the order of the source. \<open>%\<close> by zero raises.
\<close>

definition key_action :: "question \<Rightarrow> int \<Rightarrow> loop_state \<Rightarrow> error + loop_state" where
  "key_action q key s =
     (let n = int (length (options q)) in
      if key = KEY_UP then
        (if n = 0 then Inl ZeroDivisionError
         else Inr (s\<lparr>selected_idx := (selected_idx s - 1) mod n\<rparr>))
      else if key = KEY_DOWN then
        (if n = 0 then Inl ZeroDivisionError
         else Inr (s\<lparr>selected_idx := (selected_idx s + 1) mod n\<rparr>))
      else if key = ord (CHR 0x0A) \<or> key = ord CHR '' '' then Inr (commit (selected_idx s) s)
      else if key \<in> {ord CHR ''a'', ord CHR ''A''} then Inr (if n > 0 then commit 0 s else s)
      else if key \<in> {ord CHR ''b'', ord CHR ''B''} then Inr (if n > 1 then commit 1 s else s)
      else if key \<in> {ord CHR ''c'', ord CHR ''C''} then Inr (if n > 2 then commit 2 s else s)
      else if key \<in> {ord CHR ''d'', ord CHR ''D''} then Inr (if n > 3 then commit 3 s else s)
      else if key \<in> {ord CHR ''e'', ord CHR ''E''} then Inr (if n > 4 then commit 4 s else s)
      else if key \<in> {ord CHR ''f'', ord CHR ''F''} then Inr (if n > 5 then commit 5 s else s)
      else if key \<in> {ord CHR ''1''} then Inr (if n > 0 then commit 0 s else s)
      else if key \<in> {ord CHR ''2''} then Inr (if n > 1 then commit 1 s else s)
      else if key \<in> {ord CHR ''3''} then Inr (if n > 2 then commit 2 s else s)
      else if key \<in> {ord CHR ''4''} then Inr (if n > 3 then commit 3 s else s)
      else if key \<in> {ord CHR ''5''} then Inr (if n > 4 then commit 4 s else s)
      else if key \<in> {ord CHR ''6''} then Inr (if n > 5 then commit 5 s else s)
      else Inr s)"

text \<open>\<open>try: ... except: pass\<close>: whatever the body raises is dropped and the state is kept.\<close>

definition poll_step :: "question \<Rightarrow> int \<Rightarrow> loop_state \<Rightarrow> loop_state" where
  "poll_step q key s = (case key_action q key s of Inl e \<Rightarrow> s | Inr s' \<Rightarrow> s')"

text \<open>The quick-select keys as a table: the letters A to F in both cases, the digits 1 to 6.\<close>

definition direct_index :: "int \<Rightarrow> int option" where
  "direct_index key = map_of
     [(ord CHR ''a'', 0), (ord CHR ''A'', 0), (ord CHR ''b'', 1), (ord CHR ''B'', 1),
      (ord CHR ''c'', 2), (ord CHR ''C'', 2), (ord CHR ''d'', 3), (ord CHR ''D'', 3),
      (ord CHR ''e'', 4), (ord CHR ''E'', 4), (ord CHR ''f'', 5), (ord CHR ''F'', 5),
      (ord CHR ''1'', 0), (ord CHR ''2'', 1), (ord CHR ''3'', 2), (ord CHR ''4'', 3),
      (ord CHR ''5'', 4), (ord CHR ''6'', 5)] key"

text \<open>
  \<open>while not answered\<close>: each round reads the clock, leaves on a timeout, and otherwise
  polls one key. \<open>None\<close>: the readings supplied ran out with the question still open.
\<close>

function question_loop ::
  "question \<Rightarrow> real \<Rightarrow> real \<Rightarrow> loop_state \<Rightarrow> world \<Rightarrow> (loop_state \<times> world) option" where
  "question_loop q tpq start_time s w =
     (if answered s then Some (s, w)
      else case time_time w of
        None \<Rightarrow> None
      | Some (now, w1) \<Rightarrow>
          let elapsed = now - start_time in
          if elapsed \<ge> tpq then Some (s, w1)
          else let (key, w2) = getch_nodelay w1
               in question_loop q tpq start_time (poll_step q key s) w2)"
  by pat_completeness auto
termination
  by (relation "measure (\<lambda>(q, tpq, start_time, s, w). length (clock w))")
     (auto simp: time_time_def getch_nodelay_def split: list.splits)

declare question_loop.simps [simp del]

text \<open>
  The body of \<open>for i, question in enumerate(self.questions, 1)\<close>: one question played. The
  arguments \<open>tt\<close> and \<open>ca\<close> are the locals \<open>total_time\<close> and \<open>correct_answers\<close>. The three calls
  of \<open>show_result\<close> all evaluate \<open>question['options'][question['correct']]\<close> first, which raises
  when the index is out of range; the detail is appended after that.
\<close>

definition play_question ::
  "real \<Rightarrow> question \<Rightarrow> real \<Rightarrow> int \<Rightarrow> player \<Rightarrow> world \<Rightarrow> (real \<times> int \<times> player \<times> world) run" where
  "play_question tpq q tt ca p w =
     (case time_time w of
        None \<Rightarrow> Pending
      | Some (start_time, w1) \<Rightarrow>
     (case question_loop q tpq start_time
             \<lparr>selected_idx = 0, answered = False, answer = None\<rparr> w1 of
        None \<Rightarrow> Pending
      | Some (s, w2) \<Rightarrow>
     (case time_time w2 of
        None \<Rightarrow> Pending
      | Some (t, w3) \<Rightarrow>
          let time_taken = t - start_time in
          (case py_index (options q) (correct q) of
             Inl e \<Rightarrow> Raised e
           | Inr correct_text \<Rightarrow>
               let (is_correct, ca', tt') =
                     (if answer s = None then (False, ca, tt + tpq)
                      else if answer s = Some (correct q) then (True, ca + 1, tt + time_taken)
                      else (False, ca, tt + time_taken));
                   question_detail =
                     \<lparr>question_id = qid q, question_text = question q,
                      detail_options = options q, correct_answer = correct q,
                      player_answer = answer s, is_correct = is_correct,
                      time_taken = time_taken, timed_out = (answer s = None)\<rparr>
               in Done (tt', ca', p\<lparr>question_details := question_details p @ [question_detail]\<rparr>, w3)))))"

text \<open>The detail that \<open>play_question\<close> records, from the answer and the time taken.\<close>

definition detail_of :: "question \<Rightarrow> int option \<Rightarrow> real \<Rightarrow> question_detail" where
  "detail_of q a t =
     \<lparr>question_id = qid q, question_text = question q, detail_options = options q,
      correct_answer = correct q, player_answer = a, is_correct = (a = Some (correct q)),
      time_taken = t, timed_out = (a = None)\<rparr>"

text \<open>The \<open>for\<close> loop over the selected questions.\<close>

fun play_questions ::
  "real \<Rightarrow> question list \<Rightarrow> real \<Rightarrow> int \<Rightarrow> player \<Rightarrow> world \<Rightarrow> (real \<times> int \<times> player \<times> world) run" where
  "play_questions tpq [] tt ca p w = Done (tt, ca, p, w)"
| "play_questions tpq (q # qs) tt ca p w =
     (case play_question tpq q tt ca p w of
        Pending \<Rightarrow> Pending
      | Raised e \<Rightarrow> Raised e
      | Done (tt', ca', p', w') \<Rightarrow> play_questions tpq qs tt' ca' p' w')"

text \<open>What a question adds to the session's \<open>total_time\<close>, read off its recorded detail.\<close>

definition charged :: "real \<Rightarrow> question_detail \<Rightarrow> real" where
  "charged tpq d = (if timed_out d then tpq else time_taken d)"

subsection \<open>Selecting the questions of a game\<close>

text \<open>
  \<open>random.sample(population, k)\<close> belongs to the Python library, not to the program. It is
  modelled by what it does: it raises unless \<open>0 \<le> k \<le> n\<close>, and otherwise draws \<open>k\<close> times
  from a pool of the positions not yet drawn. The raw random numbers \<open>rnd 0, rnd 1, \<dots>\<close> are
  an input of the model, and a draw below \<open>m\<close> is \<open>rnd i mod m\<close>, so that every behaviour of
  the generator is covered by some \<open>rnd\<close>.
\<close>

fun sample_from_pool :: "(nat \<Rightarrow> nat) \<Rightarrow> nat \<Rightarrow> 'a list \<Rightarrow> nat \<Rightarrow> 'a list" where
  "sample_from_pool rnd i pool 0 = []"
| "sample_from_pool rnd i pool (Suc k) =
     (let j = rnd i mod length pool
      in pool ! j # sample_from_pool rnd (Suc i) (butlast (pool[j := last pool])) k)"

definition random_sample :: "(nat \<Rightarrow> nat) \<Rightarrow> 'a list \<Rightarrow> int \<Rightarrow> error + 'a list" where
  "random_sample rnd population k =
     (let n = int (length population)
      in if \<not> (0 \<le> k \<and> k \<le> n) then Inl ValueError
         else Inr (sample_from_pool rnd 0 population (nat k)))"

definition select_random_questions ::
  "(nat \<Rightarrow> nat) \<Rightarrow> quiz_metadata \<Rightarrow> question list \<Rightarrow> error + question list" where
  "select_random_questions rnd md all_questions =
     (let qpg = (case questions_per_game md of None \<Rightarrow> 5 | Some c \<Rightarrow> c)
      in if int (length all_questions) \<le> qpg then Inr all_questions
         else random_sample rnd all_questions qpg)"


subsection \<open>Ranking and the high-score test\<close>

text \<open>The sort key \<open>lambda x: (-x['score'], x['total_time'])\<close>; tuples compare lexicographically.\<close>

definition rank_key :: "'a entry_scheme \<Rightarrow> int \<times> real" where
  "rank_key x = (- score x, total_time x)"

text \<open>
  The test in \<open>show_game_over\<close>, on the scores loaded before the new entry is saved.
  Python's \<open>sorted\<close> is a stable sort by key, as \<open>sort_key\<close> is.
\<close>

definition is_high_score :: "entry list \<Rightarrow> player \<Rightarrow> bool" where
  "is_high_score scs p =
     (if scs = [] then True
      else let sorted_scores = sort_key rank_key scs;
               best_score = hd sorted_scores
           in if score p > score best_score then True
              else if score p = score best_score \<and> total_time p < total_time best_score then True
              else False)"

text \<open>
  The rows shown by \<open>display_scoreboard\<close> (\<open>[:10]\<close>) and \<open>display_top5_with_emails\<close> (\<open>[:5]\<close>),
  and the two with the length of the slice as a parameter.
\<close>

definition rankings :: "entry list \<Rightarrow> nat \<Rightarrow> entry list" where
  "rankings scs limit = take limit (sort_key rank_key scs)"

definition display_scoreboard :: "entry list \<Rightarrow> entry list" where
  "display_scoreboard scs = (if scs = [] then [] else take 10 (sort_key rank_key scs))"

definition display_top5_with_emails :: "entry list \<Rightarrow> entry list" where
  "display_top5_with_emails scs = (if scs = [] then [] else take 5 (sort_key rank_key scs))"

text \<open>The order the ranking is claimed to follow: higher score first, then lower time.\<close>

definition ranks_before :: "entry \<Rightarrow> entry \<Rightarrow> bool" where
  "ranks_before a b \<longleftrightarrow> score a > score b \<or> (score a = score b \<and> total_time a \<le> total_time b)"

text \<open>The best existing score, and the lowest time among the entries that have it.\<close>

definition best_existing_score :: "entry list \<Rightarrow> int" where
  "best_existing_score scs = Max (set (map score scs))"

definition best_existing_time :: "entry list \<Rightarrow> real" where
  "best_existing_time scs =
     Min (set (map total_time (filter (\<lambda>x. score x = best_existing_score scs) scs)))"

subsection \<open>The scoreboard and stats stores\<close>

text \<open>
  A file is absent, present but not JSON (\<open>json.load\<close> raises), or holds a document.
  A scoreboard document is a bare list of entries (the old format) or a dictionary with
  the keys written by \<open>save_score\<close>, each of which may be absent. A stats document is a list
  of the dictionaries \<open>game_stats\<close>. Documents are taken to be well typed: entries carry
  their fields, and \<open>scores\<close> holds a list of entries when it is there.
\<close>

datatype 'a store = Missing | Corrupt | Parsed 'a

record scoreboard_dict =
  quiz_title :: "string option"
  quiz_description :: "string option"
  last_updated :: "string option"
  scores :: "entry list option"

datatype scoreboard_json = JList "entry list" | JDict scoreboard_dict

record game_stats =
  player_name :: string
  player_email :: string
  stats_timestamp :: string
  final_score :: int
  stats_total_time :: real
  total_questions :: nat
  questions :: "question_detail list"

record files =
  scoreboard_file :: "scoreboard_json store"
  stats_file :: "game_stats list store"

text \<open>The dictionary \<open>{"scores": data}\<close>.\<close>

definition scores_only :: "entry list \<Rightarrow> scoreboard_dict" where
  "scores_only data =
     \<lparr>quiz_title = None, quiz_description = None, last_updated = None, scores = Some data\<rparr>"

text \<open>\<open>load_scoreboard\<close> catches \<open>FileNotFoundError\<close> and nothing else.\<close>

definition load_scoreboard :: "files \<Rightarrow> error + scoreboard_dict" where
  "load_scoreboard fs =
     (case scoreboard_file fs of
        Missing \<Rightarrow> Inr (scores_only [])
      | Corrupt \<Rightarrow> Inl JSONDecodeError
      | Parsed (JList data) \<Rightarrow> Inr (scores_only data)
      | Parsed (JDict data) \<Rightarrow> Inr data)"

text \<open>\<open>scoreboard_data.get('scores', [])\<close>.\<close>

definition get_scores :: "scoreboard_dict \<Rightarrow> entry list" where
  "get_scores scoreboard_data = (case scores scoreboard_data of None \<Rightarrow> [] | Some scs \<Rightarrow> scs)"

definition load_stats :: "files \<Rightarrow> error + game_stats list" where
  "load_stats fs =
     (case stats_file fs of
        Missing \<Rightarrow> Inr []
      | Corrupt \<Rightarrow> Inl JSONDecodeError
      | Parsed data \<Rightarrow> Inr data)"

definition player_data :: "player \<Rightarrow> entry" where
  "player_data p =
     \<lparr>name = name p, email = email p, marketing_consent = marketing_consent p,
      score = score p, total_time = total_time p, timestamp = timestamp p\<rparr>"

text \<open>\<open>save_score\<close>; \<open>now\<close> is \<open>datetime.now().isoformat()\<close>. The file is overwritten whole.\<close>

definition save_score :: "quiz_metadata \<Rightarrow> string \<Rightarrow> player \<Rightarrow> files \<Rightarrow> error + files" where
  "save_score md now p fs =
     (case load_scoreboard fs of
        Inl e \<Rightarrow> Inl e
      | Inr scoreboard_data \<Rightarrow>
          let scs = get_scores scoreboard_data @ [player_data p];
              scoreboard =
                \<lparr>quiz_title = Some (case title md of None \<Rightarrow> ''Quiz'' | Some t \<Rightarrow> t),
                 quiz_description = Some (case description md of None \<Rightarrow> [] | Some d \<Rightarrow> d),
                 last_updated = Some now,
                 scores = Some scs\<rparr>
          in Inr (fs\<lparr>scoreboard_file := Parsed (JDict scoreboard)\<rparr>))"

definition save_game_stats :: "question list \<Rightarrow> player \<Rightarrow> files \<Rightarrow> error + files" where
  "save_game_stats qs p fs =
     (case load_stats fs of
        Inl e \<Rightarrow> Inl e
      | Inr stats_data \<Rightarrow>
          let game_stats =
                \<lparr>player_name = name p, player_email = email p, stats_timestamp = timestamp p,
                 final_score = score p, stats_total_time = total_time p,
                 total_questions = length qs, questions = question_details p\<rparr>
          in Inr (fs\<lparr>stats_file := Parsed (stats_data @ [game_stats])\<rparr>))"



subsection \<open>A whole game\<close>

text \<open>\<open>while True: key = getch(); if key == ord(' '): break\<close>, with blocking input.\<close>

fun wait_for_spacebar :: "int list \<Rightarrow> int list option" where
  "wait_for_spacebar [] = None"
| "wait_for_spacebar (key # ks) = (if key = ord CHR '' '' then Some ks else wait_for_spacebar ks)"

text \<open>
  \<open>show_game_over\<close>: the scoreboard is loaded and tested before the new entry is saved, then
  any key is awaited. The result is \<open>is_high_score\<close>.
\<close>

definition show_game_over :: "player \<Rightarrow> world \<Rightarrow> files \<Rightarrow> (bool \<times> world) run" where
  "show_game_over p w fs =
     (case load_scoreboard fs of
        Inl e \<Rightarrow> Raised e
      | Inr scoreboard_data \<Rightarrow>
          let hs = is_high_score (get_scores scoreboard_data) p
          in case getch w of None \<Rightarrow> Pending | Some (key, w') \<Rightarrow> Done (hs, w'))"

text \<open>
  \<open>play_game\<close>: select, wait for the spacebar, play the questions, set the player's score
  and time, show the result, save the score, save the stats.
\<close>

definition play_game ::
  "(nat \<Rightarrow> nat) \<Rightarrow> quiz_metadata \<Rightarrow> string \<Rightarrow> question list \<Rightarrow> player \<Rightarrow> world \<Rightarrow> files
     \<Rightarrow> (player \<times> bool \<times> world \<times> files) run" where
  "play_game rnd md now all_questions p w fs =
     (case select_random_questions rnd md all_questions of
        Inl e \<Rightarrow> Raised e
      | Inr qs \<Rightarrow>
          let tpq = (case time_per_question md of None \<Rightarrow> 30 | Some t \<Rightarrow> t) in
          (case wait_for_spacebar (keys w) of
             None \<Rightarrow> Pending
           | Some ks \<Rightarrow>
          (case play_questions tpq qs 0 0 p (w\<lparr>keys := ks\<rparr>) of
             Pending \<Rightarrow> Pending
           | Raised e \<Rightarrow> Raised e
           | Done (tt, ca, p1, w1) \<Rightarrow>
               let p2 = p1\<lparr>score := ca, total_time := tt\<rparr> in
               (case show_game_over p2 w1 fs of
                  Pending \<Rightarrow> Pending
                | Raised e \<Rightarrow> Raised e
                | Done (hs, w2) \<Rightarrow>
                    (case save_score md now p2 fs of
                       Inl e \<Rightarrow> Raised e
                     | Inr fs1 \<Rightarrow>
                         (case save_game_stats qs p2 fs1 of
                            Inl e \<Rightarrow> Raised e
                          | Inr fs2 \<Rightarrow> Done (p2, hs, w2, fs2)))))))"

subsection \<open>Concrete inputs\<close>


definition demo_question :: question where
  "demo_question = \<lparr>qid = 1, question = ''2 + 2?'', options = [''3'', ''4''], correct = 1, explanation = []\<rparr>"

definition demo_player :: player where
  "demo_player = \<lparr>name = ''Ann'', email = ''ann@example.org'', marketing_consent = False,
     score = 0, total_time = 0, timestamp = ''2024-01-01T00:00:00'', question_details = []\<rparr>"



definition default_metadata :: quiz_metadata where
  "default_metadata = \<lparr>title = None, description = None, questions_per_game = None, time_per_question = None\<rparr>"

definition no_files :: files where
  "no_files = \<lparr>scoreboard_file = Missing, stats_file = Missing\<rparr>"

definition timeout_game :: "(player \<times> bool \<times> world \<times> files) run" where
  "timeout_game =
     play_game (\<lambda>i. 0) default_metadata ''2024-01-01T00:01:00'' [demo_question, demo_question]
       demo_player
       \<lparr>clock = [0, 5, 6, 10, 20, 41, 42], keys = [ord CHR '' '', ord CHR ''2'', -1, ord CHR ''x'']\<rparr>
       no_files"



definition entry_with :: "int \<Rightarrow> real \<Rightarrow> entry" where
  "entry_with s t =
     \<lparr>name = ''Bob'', email = ''bob@example.org'', marketing_consent = False,
      score = s, total_time = t, timestamp = ''2024-01-01T00:00:00''\<rparr>"

definition player_with :: "int \<Rightarrow> real \<Rightarrow> player" where
  "player_with s t = demo_player\<lparr>score := s, total_time := t\<rparr>"



section \<open>Properties\<close>

subsection \<open>Keys and the question loop\<close>

lemmas key_codes = ord_def KEY_UP_def KEY_DOWN_def

lemma key_action_alt:
  "key_action q key s =
     (if key = KEY_UP \<or> key = KEY_DOWN then
        (if options q = [] then Inl ZeroDivisionError
         else Inr (s\<lparr>selected_idx := (selected_idx s + (if key = KEY_UP then -1 else 1)) mod int (length (options q))\<rparr>))
      else if key = 10 \<or> key = 32 then Inr (commit (selected_idx s) s)
      else case direct_index key of
             None \<Rightarrow> Inr s
           | Some i \<Rightarrow> Inr (if i < int (length (options q)) then commit i s else s))"
  unfolding key_action_def Let_def direct_index_def
  by (simp add: key_codes)

lemma direct_index_range: "direct_index key = Some i \<Longrightarrow> 0 \<le> i \<and> i < 6"
  by (simp add: direct_index_def split: if_splits)

lemma poll_step_cases:
  "poll_step q key s = s
   \<or> (\<exists>i. poll_step q key s = s\<lparr>selected_idx := i\<rparr> \<and> 0 \<le> i \<and> i < int (length (options q)))
   \<or> poll_step q key s = commit (selected_idx s) s
   \<or> (\<exists>i. poll_step q key s = commit i s \<and> 0 \<le> i \<and> i < int (length (options q)))"
proof -
  have n: "options q \<noteq> [] \<Longrightarrow> 0 < int (length (options q))" by simp
  show ?thesis
    unfolding poll_step_def key_action_alt
    using n by (auto split: option.splits dest: direct_index_range)
qed

lemma poll_step_no_input: "poll_step q (-1) s = s"
  by (simp add: poll_step_def key_action_alt direct_index_def key_codes)


lemma getch_nodelay_key: "getch_nodelay w1 = (key, w2) \<Longrightarrow> key \<in> insert (-1) (set (keys w1)) \<and> set (keys w2) \<subseteq> set (keys w1) \<and> clock w2 = clock w1"
  by (auto simp: getch_nodelay_def split: list.splits)

lemma time_time_keys: "time_time w = Some (now, w1) \<Longrightarrow> keys w1 = keys w \<and> clock w = now # clock w1"
  by (auto simp: time_time_def split: list.splits)

lemma question_loop_invariant:
  assumes "question_loop q tpq st s w = Some (s', w')"
    and "P s"
    and "\<And>s key. P s \<Longrightarrow> key \<in> insert (-1) (set (keys w)) \<Longrightarrow> P (poll_step q key s)"
  shows "P s'"
  using assms
proof (induction q tpq st s w rule: question_loop.induct)
  case (1 q tpq st s w)
  show ?case
  proof (cases "answered s")
    case True
    with "1.prems" show ?thesis by (simp add: question_loop.simps)
  next
    case False
    from False "1.prems"(1) obtain now w1 where tt: "time_time w = Some (now, w1)"
      by (auto simp: question_loop.simps [of q tpq st s w] split: option.splits)
    show ?thesis
    proof (cases "now - st \<ge> tpq")
      case True
      with False tt "1.prems" show ?thesis
        by (simp add: question_loop.simps [of q tpq st s w])
    next
      case ne: False
      obtain key w2 where g: "getch_nodelay w1 = (key, w2)" by (cases "getch_nodelay w1")
      from g tt have k: "key \<in> insert (-1) (set (keys w))" and sub: "set (keys w2) \<subseteq> set (keys w)"
        using getch_nodelay_key [OF g] time_time_keys [OF tt] by auto
      from False tt ne g "1.prems"(1)
      have run: "question_loop q tpq st (poll_step q key s) w2 = Some (s', w')"
        by (simp add: question_loop.simps [of q tpq st s w])
      have P1: "P (poll_step q key s)" using "1.prems"(2) k by (rule "1.prems"(3))
      have step: "\<And>s k. P s \<Longrightarrow> k \<in> insert (-1) (set (keys w2)) \<Longrightarrow> P (poll_step q k s)"
        using "1.prems"(3) sub by blast
      show ?thesis
        by (rule "1.IH" [OF False tt refl refl ne refl g [symmetric] run P1 step])
    qed
  qed
qed

lemma question_loop_reaches_terminal:
  assumes "\<exists>t \<in> set (clock w). tpq \<le> t - st"
  shows "\<exists>s' w'. question_loop q tpq st s w = Some (s', w')"
  using assms
proof (induction q tpq st s w rule: question_loop.induct)
  case (1 q tpq st s w)
  show ?case
  proof (cases "answered s")
    case True
    then show ?thesis by (simp add: question_loop.simps)
  next
    case False
    from "1.prems" obtain now cl where cl: "clock w = now # cl" by (cases "clock w") auto
    then have tt: "time_time w = Some (now, w\<lparr>clock := cl\<rparr>)" by (simp add: time_time_def)
    show ?thesis
    proof (cases "now - st \<ge> tpq")
      case True
      with False tt show ?thesis
        by (simp add: question_loop.simps [of q tpq st s w])
    next
      case ne: False
      obtain key w2 where g: "getch_nodelay (w\<lparr>clock := cl\<rparr>) = (key, w2)"
        by (cases "getch_nodelay (w\<lparr>clock := cl\<rparr>)")
      from getch_nodelay_key [OF g] have "clock w2 = cl" by simp
      with "1.prems" cl ne have later: "\<exists>t \<in> set (clock w2). tpq \<le> t - st" by auto
      have "\<exists>s' w'. question_loop q tpq st (poll_step q key s) w2 = Some (s', w')"
        by (rule "1.IH" [OF False tt refl refl ne refl g [symmetric] later])
      with False tt ne g show ?thesis
        by (simp add: question_loop.simps [of q tpq st s w])
    qed
  qed
qed

lemma poll_step_answered:
  "answered s = (answer s \<noteq> None) \<Longrightarrow> answered (poll_step q key s) = (answer (poll_step q key s) \<noteq> None)"
  using poll_step_cases [of q key s] by (auto simp: commit_def)

lemma question_loop_answered:
  "question_loop q tpq st s w = Some (s', w') \<Longrightarrow> answered s = (answer s \<noteq> None)
   \<Longrightarrow> answered s' = (answer s' \<noteq> None)"
  by (erule question_loop_invariant [where P = "\<lambda>s. answered s = (answer s \<noteq> None)"])
     (simp_all add: poll_step_answered)

subsection \<open>One question and a session\<close>

lemma play_question_unfold:
  "play_question tpq q tt ca p w =
     (case time_time w of
        None \<Rightarrow> Pending
      | Some (start_time, w1) \<Rightarrow>
     (case question_loop q tpq start_time
             \<lparr>selected_idx = 0, answered = False, answer = None\<rparr> w1 of
        None \<Rightarrow> Pending
      | Some (s, w2) \<Rightarrow>
     (case time_time w2 of
        None \<Rightarrow> Pending
      | Some (t, w3) \<Rightarrow>
          (case py_index (options q) (correct q) of
             Inl e \<Rightarrow> Raised e
           | Inr correct_text \<Rightarrow>
               Done (tt + charged tpq (detail_of q (answer s) (t - start_time)),
                     ca + (if answer s = Some (correct q) then 1 else 0),
                     p\<lparr>question_details :=
                         question_details p @ [detail_of q (answer s) (t - start_time)]\<rparr>,
                     w3)))))"
proof -
  have tally: "\<And>a c t.
      (if a = None then (False, ca, tt + tpq)
       else if a = Some c then (True, ca + 1, tt + t)
       else (False, ca, tt + t))
      = (a = Some c, ca + (if a = Some c then 1 else 0), tt + (if a = None then tpq else t))"
    by auto
  show ?thesis
    unfolding play_question_def Let_def tally
    by (simp add: charged_def detail_of_def split: option.splits sum.splits prod.splits)
qed

lemma detail_of_simps:
  "question_id (detail_of q a t) = qid q"
  "correct_answer (detail_of q a t) = correct q"
  "player_answer (detail_of q a t) = a"
  "is_correct (detail_of q a t) = (a = Some (correct q))"
  "time_taken (detail_of q a t) = t"
  "timed_out (detail_of q a t) = (a = None)"
  by (simp_all add: detail_of_def)

lemma play_question_Done:
  assumes "play_question tpq q tt ca p w = Done (tt', ca', p', w')"
  shows "\<exists>d. p' = p\<lparr>question_details := question_details p @ [d]\<rparr>
           \<and> question_id d = qid q \<and> correct_answer d = correct q
           \<and> is_correct d = (player_answer d = Some (correct q))
           \<and> timed_out d = (player_answer d = None)
           \<and> tt' = tt + charged tpq d
           \<and> ca' = ca + (if is_correct d then 1 else 0)"
proof -
  from assms obtain a t where
    "tt' = tt + charged tpq (detail_of q a t)"
    "ca' = ca + (if a = Some (correct q) then 1 else 0)"
    "p' = p\<lparr>question_details := question_details p @ [detail_of q a t]\<rparr>"
    unfolding play_question_unfold
    by (auto split: option.splits sum.splits prod.splits)
  then show ?thesis
    by (intro exI [of _ "detail_of q a t"]) (simp add: detail_of_simps)
qed

lemma play_questions_Done:
  assumes "play_questions tpq qs tt ca p w = Done (tt', ca', p', w')"
  shows "\<exists>ds. p' = p\<lparr>question_details := question_details p @ ds\<rparr>
           \<and> map question_id ds = map qid qs \<and> map correct_answer ds = map correct qs
           \<and> (\<forall>d \<in> set ds. is_correct d = (player_answer d = Some (correct_answer d))
                            \<and> timed_out d = (player_answer d = None))
           \<and> tt' = tt + sum_list (map (charged tpq) ds)
           \<and> ca' = ca + int (length (filter is_correct ds))"
  using assms
proof (induction qs arbitrary: tt ca p w)
  case Nil
  then show ?case by simp
next
  case (Cons q qs)
  from Cons.prems obtain tt1 ca1 p1 w1 where
    one: "play_question tpq q tt ca p w = Done (tt1, ca1, p1, w1)" and
    rest: "play_questions tpq qs tt1 ca1 p1 w1 = Done (tt', ca', p', w')"
    by (auto split: run.splits)
  from play_question_Done [OF one] obtain d where d:
    "p1 = p\<lparr>question_details := question_details p @ [d]\<rparr>"
    "question_id d = qid q" "correct_answer d = correct q"
    "is_correct d = (player_answer d = Some (correct q))"
    "timed_out d = (player_answer d = None)"
    "tt1 = tt + charged tpq d" "ca1 = ca + (if is_correct d then 1 else 0)"
    by auto
  from Cons.IH [OF rest] obtain ds where ds:
    "p' = p1\<lparr>question_details := question_details p1 @ ds\<rparr>"
    "map question_id ds = map qid qs" "map correct_answer ds = map correct qs"
    "\<forall>d \<in> set ds. is_correct d = (player_answer d = Some (correct_answer d))
                            \<and> timed_out d = (player_answer d = None)"
    "tt' = tt1 + sum_list (map (charged tpq) ds)"
    "ca' = ca1 + int (length (filter is_correct ds))"
    by auto
  show ?case
  proof (intro exI [of _ "d # ds"] conjI)
    show "p' = p\<lparr>question_details := question_details p @ d # ds\<rparr>"
      using d(1) ds(1) by simp
    show "map question_id (d # ds) = map qid (q # qs)" using d(2) ds(2) by simp
    show "map correct_answer (d # ds) = map correct (q # qs)" using d(3) ds(3) by simp
    show "\<forall>d \<in> set (d # ds). is_correct d = (player_answer d = Some (correct_answer d))
                            \<and> timed_out d = (player_answer d = None)"
      using d(3,4,5) ds(4) by simp
    show "tt' = tt + sum_list (map (charged tpq) (d # ds))" using d(6) ds(5) by simp
    show "ca' = ca + int (length (filter is_correct (d # ds)))" using d(7) ds(6) by simp
  qed
qed

lemmas run_simps = play_question_unfold question_loop.simps time_time_def getch_nodelay_def
  poll_step_def key_action_alt direct_index_def key_codes py_index_def commit_def detail_of_def
  charged_def

lemma demo_run:
  "play_questions 30 [demo_question, demo_question] 0 0 demo_player
      \<lparr>clock = [0, 1, 2, 10, 11, 12], keys = [ord CHR ''2'', ord CHR ''1'']\<rparr>
   = Done (4, 1,
       demo_player\<lparr>question_details :=
         [detail_of demo_question (Some 1) 2, detail_of demo_question (Some 0) 2]\<rparr>,
       \<lparr>clock = [], keys = []\<rparr>)"
  by (simp add: run_simps demo_question_def demo_player_def)

text \<open>
  Claim C3. In a session that ran to its end, every question has one recorded detail, and for
  a detail with an answer \<open>a\<close> the flag \<open>is_correct\<close> is true exactly when \<open>a\<close> is the question's
  correct index; so any other answer gives false.
\<close>

theorem answered_outcome_correct_iff:
  assumes "play_questions tpq qs tt ca p w = Done (tt', ca', p', w')"
  shows "\<exists>ds. question_details p' = question_details p @ ds \<and> length ds = length qs
           \<and> (\<forall>i < length qs. \<forall>a. player_answer (ds ! i) = Some a
                  \<longrightarrow> (is_correct (ds ! i) \<longleftrightarrow> a = correct (qs ! i)))"
proof -
  from play_questions_Done [OF assms] obtain ds where ds:
    "p' = p\<lparr>question_details := question_details p @ ds\<rparr>"
    "map correct_answer ds = map correct qs"
    "\<forall>d \<in> set ds. is_correct d = (player_answer d = Some (correct_answer d))
                            \<and> timed_out d = (player_answer d = None)"
    by auto
  from ds(2) have len: "length ds = length qs"
    by (metis length_map)
  have "\<forall>i < length qs. \<forall>a. player_answer (ds ! i) = Some a
                  \<longrightarrow> (is_correct (ds ! i) \<longleftrightarrow> a = correct (qs ! i))"
  proof (intro allI impI)
    fix i a
    assume i: "i < length qs" and a: "player_answer (ds ! i) = Some a"
    from i len have mem: "ds ! i \<in> set ds" by simp
    from i len ds(2) have "correct_answer (ds ! i) = correct (qs ! i)"
      by (metis nth_map)
    with ds(3) mem a show "is_correct (ds ! i) \<longleftrightarrow> a = correct (qs ! i)" by auto
  qed
  with ds(1) len show ?thesis by simp
qed

theorem answered_outcome_correct_iff_witness:
  "play_questions 30 [demo_question, demo_question] 0 0 demo_player
      \<lparr>clock = [0, 1, 2, 10, 11, 12], keys = [ord CHR ''2'', ord CHR ''1'']\<rparr>
   = Done (4, 1,
       demo_player\<lparr>question_details :=
         [detail_of demo_question (Some 1) 2, detail_of demo_question (Some 0) 2]\<rparr>,
       \<lparr>clock = [], keys = []\<rparr>)
   \<and> is_correct (detail_of demo_question (Some 1) 2)
   \<and> \<not> is_correct (detail_of demo_question (Some 0) 2)"
proof -
  note run = demo_run
  from answered_outcome_correct_iff [OF run] obtain ds where ds:
    "question_details (demo_player\<lparr>question_details :=
         [detail_of demo_question (Some 1) 2, detail_of demo_question (Some 0) 2]\<rparr>)
       = question_details demo_player @ ds"
    "\<forall>i < length [demo_question, demo_question]. \<forall>a. player_answer (ds ! i) = Some a
        \<longrightarrow> (is_correct (ds ! i) \<longleftrightarrow> a = correct ([demo_question, demo_question] ! i))"
    by blast
  from ds(1) have eq: "ds = [detail_of demo_question (Some 1) 2, detail_of demo_question (Some 0) 2]"
    by (simp add: demo_player_def)
  from ds(2) [rule_format, of 0 1] eq have "is_correct (detail_of demo_question (Some 1) 2)"
    by (simp add: detail_of_simps demo_question_def)
  moreover from ds(2) [rule_format, of 1 0] eq have "\<not> is_correct (detail_of demo_question (Some 0) 2)"
    by (simp add: detail_of_simps demo_question_def)
  ultimately show ?thesis using run by simp
qed

subsection \<open>Keys\<close>




subsection \<open>Questions with no option or one\<close>






text \<open>
  What follows the loop is another matter: a question with no options has no valid correct
  index, so the lookup of the correct answer raises and no detail is recorded.
\<close>

lemma no_options_never_recorded:
  assumes "options q = []"
  shows "play_question tpq q tt ca p w = Pending \<or> play_question tpq q tt ca p w = Raised IndexError"
proof -
  from assms have "py_index (options q) (correct q) = Inl IndexError"
    by (simp add: py_index_def)
  then show ?thesis
    unfolding play_question_unfold by (simp split: option.splits)
qed

subsection \<open>Timeouts\<close>

lemma no_input_times_out:
  assumes "set (keys w) \<subseteq> {-1}" and "\<exists>t \<in> set (clock w). tpq \<le> t - start_time"
  shows "\<exists>w'. question_loop q tpq start_time s w = Some (s, w')"
proof -
  from question_loop_reaches_terminal [OF assms(2)] obtain s' w' where
    run: "question_loop q tpq start_time s w = Some (s', w')" by blast
  have "s' = s"
  proof (rule question_loop_invariant [OF run, where P = "\<lambda>x. x = s"])
    fix x key assume "x = s" "key \<in> insert (- 1) (set (keys w))"
    with assms(1) show "poll_step q key x = s" by (auto simp: poll_step_no_input)
  qed simp
  with run show ?thesis by blast
qed

lemma question_loop_timeout_reading:
  assumes "question_loop q tpq st s w = Some (s', w')" and "\<not> answered s'"
  shows "\<exists>pre now. clock w = pre @ now # clock w' \<and> tpq \<le> now - st"
  using assms
proof (induction q tpq st s w rule: question_loop.induct)
  case (1 q tpq st s w)
  show ?case
  proof (cases "answered s")
    case True
    with "1.prems" show ?thesis by (simp add: question_loop.simps)
  next
    case False
    from False "1.prems"(1) obtain now w1 where tt: "time_time w = Some (now, w1)"
      by (auto simp: question_loop.simps [of q tpq st s w] split: option.splits)
    from time_time_keys [OF tt] have cl: "clock w = now # clock w1" by simp
    show ?thesis
    proof (cases "now - st \<ge> tpq")
      case True
      with False tt "1.prems"(1) have "w' = w1"
        by (simp add: question_loop.simps [of q tpq st s w])
      with cl True show ?thesis by (intro exI [of _ "[]"] exI [of _ now]) simp
    next
      case ne: False
      obtain key w2 where g: "getch_nodelay w1 = (key, w2)" by (cases "getch_nodelay w1")
      from False tt ne g "1.prems"(1)
      have run: "question_loop q tpq st (poll_step q key s) w2 = Some (s', w')"
        by (simp add: question_loop.simps [of q tpq st s w])
      from "1.IH" [OF False tt refl refl ne refl g [symmetric] run "1.prems"(2)]
      obtain pre now' where "clock w2 = pre @ now' # clock w'" "tpq \<le> now' - st" by blast
      with getch_nodelay_key [OF g] cl have "clock w = (now # pre) @ now' # clock w'" by simp
      with \<open>tpq \<le> now' - st\<close> show ?thesis by blast
    qed
  qed
qed

lemma timed_out_time_taken_at_least_limit:
  assumes run: "play_question tpq q tt ca p w = Done (tt', ca', p', w')"
    and mono: "sorted (clock w)"
    and out: "timed_out (last (question_details p'))"
  shows "tpq \<le> time_taken (last (question_details p'))"
proof -
  from run obtain st w1 s w2 t where
    st: "time_time w = Some (st, w1)" and
    loop: "question_loop q tpq st \<lparr>selected_idx = 0, answered = False, answer = None\<rparr> w1 = Some (s, w2)" and
    t: "time_time w2 = Some (t, w')" and
    p': "p' = p\<lparr>question_details := question_details p @ [detail_of q (answer s) (t - st)]\<rparr>"
    unfolding play_question_unfold
    by (auto split: option.splits sum.splits)
  from p' out have none: "answer s = None" by (simp add: detail_of_simps)
  have "answered s = (answer s \<noteq> None)"
    by (rule question_loop_answered [OF loop]) simp
  with none have "\<not> answered s" by simp
  from question_loop_timeout_reading [OF loop this] obtain pre now where
    cl: "clock w1 = pre @ now # clock w2" and late: "tpq \<le> now - st" by blast
  from time_time_keys [OF t] have "clock w2 = t # clock w'" by simp
  with cl time_time_keys [OF st] have "clock w = st # pre @ now # t # clock w'" by simp
  with mono have "now \<le> t" by (simp add: sorted_append)
  with late p' show ?thesis by (simp add: detail_of_simps)
qed

lemma no_input_outcome:
  assumes run: "play_question tpq q tt ca p w = Done (tt', ca', p', w')"
    and quiet: "set (keys w) \<subseteq> {-1}"
  shows "\<exists>t. p' = p\<lparr>question_details := question_details p @ [detail_of q None t]\<rparr>
           \<and> tt' = tt + tpq \<and> ca' = ca"
proof -
  from run obtain st w1 s w2 t where
    st: "time_time w = Some (st, w1)" and
    loop: "question_loop q tpq st \<lparr>selected_idx = 0, answered = False, answer = None\<rparr> w1 = Some (s, w2)" and
    res: "tt' = tt + charged tpq (detail_of q (answer s) (t - st))"
      "ca' = ca + (if answer s = Some (correct q) then 1 else 0)"
      "p' = p\<lparr>question_details := question_details p @ [detail_of q (answer s) (t - st)]\<rparr>"
    unfolding play_question_unfold
    by (auto split: option.splits sum.splits)
  from time_time_keys [OF st] quiet have q1: "set (keys w1) \<subseteq> {-1}" by simp
  have "s = \<lparr>selected_idx = 0, answered = False, answer = None\<rparr>"
  proof (rule question_loop_invariant [OF loop, where P = "\<lambda>x. x = \<lparr>selected_idx = 0, answered = False, answer = None\<rparr>"])
    fix x key assume "x = \<lparr>selected_idx = 0, answered = False, answer = None\<rparr>" "key \<in> insert (- 1) (set (keys w1))"
    with q1 show "poll_step q key x = \<lparr>selected_idx = 0, answered = False, answer = None\<rparr>"
      by (auto simp: poll_step_no_input)
  qed simp
  then have "answer s = None" by simp
  with res show ?thesis
    by (intro exI [of _ "t - st"]) (simp add: charged_def detail_of_simps)
qed

text \<open>
  Claim C1. A question that times out is recorded with no answer and \<open>is_correct\<close> false, and
  the session total is charged the time limit. The recorded \<open>time_taken\<close> is not the limit: it
  is the reading of the clock after the loop minus the start. With a limit of 30, a start at
  0, the timeout seen at 31 and the next reading 32, the detail says 32.
\<close>

theorem timed_out_detail_keeps_elapsed_time:
  "play_question 30 demo_question 0 0 demo_player \<lparr>clock = [0, 10, 31, 32], keys = []\<rparr>
     = Done (30, 0, demo_player\<lparr>question_details := [detail_of demo_question None 32]\<rparr>,
             \<lparr>clock = [], keys = []\<rparr>)
   \<and> player_answer (detail_of demo_question None 32) = None
   \<and> \<not> is_correct (detail_of demo_question None 32)
   \<and> timed_out (detail_of demo_question None 32)
   \<and> time_taken (detail_of demo_question None 32) = 32"
  by (simp add: run_simps demo_question_def demo_player_def)

subsection \<open>The tallies of a game\<close>

lemma play_game_tallies:
  assumes "play_game rnd md now all_questions p w fs = Done (p2, hs, w2, fs2)"
  shows "\<exists>ds. question_details p2 = question_details p @ ds
           \<and> score p2 = int (length (filter is_correct ds))
           \<and> total_time p2 =
               sum_list (map (charged (case time_per_question md of None \<Rightarrow> 30 | Some t \<Rightarrow> t)) ds)"
proof -
  let ?tpq = "case time_per_question md of None \<Rightarrow> 30 | Some t \<Rightarrow> t"
  from assms obtain qs ks tt ca p1 w1 where
    run: "play_questions ?tpq qs 0 0 p (w\<lparr>keys := ks\<rparr>) = Done (tt, ca, p1, w1)" and
    p2: "p2 = p1\<lparr>score := ca, total_time := tt\<rparr>"
    unfolding play_game_def Let_def
    by (auto split: sum.splits option.splits run.splits)
  from play_questions_Done [OF run] obtain ds where
    "p1 = p\<lparr>question_details := question_details p @ ds\<rparr>"
    "tt = 0 + sum_list (map (charged ?tpq) ds)"
    "ca = 0 + int (length (filter is_correct ds))"
    by auto
  with p2 show ?thesis by simp
qed

lemma timeout_game_questions:
  "play_questions 30 [demo_question, demo_question] 0 0 demo_player
       \<lparr>clock = [0, 5, 6, 10, 20, 41, 42], keys = [ord CHR ''2'', -1, ord CHR ''x'']\<rparr>
   = Done (36, 1, demo_player\<lparr>question_details :=
              [detail_of demo_question (Some 1) 6, detail_of demo_question None 32]\<rparr>,
           \<lparr>clock = [], keys = [ord CHR ''x'']\<rparr>)"
  by (simp add: run_simps demo_question_def demo_player_def)

lemma timeout_game_result:
  "\<exists>fs. timeout_game =
     Done (demo_player\<lparr>question_details :=
              [detail_of demo_question (Some 1) 6, detail_of demo_question None 32],
              score := 1, total_time := 36\<rparr>,
           True, \<lparr>clock = [], keys = []\<rparr>, fs)"
  unfolding timeout_game_def play_game_def
  by (simp del: play_questions.simps add: timeout_game_questions select_random_questions_def
        default_metadata_def show_game_over_def load_scoreboard_def no_files_def get_scores_def
        scores_only_def is_high_score_def getch_def save_score_def save_game_stats_def
        load_stats_def Let_def)

text \<open>
  Claim C2. In the game \<open>timeout_game\<close> the first question is answered correctly after 6
  seconds and the second times out: the score 1 is the number of correct details, the total
  is 6 + 30 = 36, and the recorded times add up to 6 + 32 = 38.
\<close>

theorem session_total_differs_from_sum_of_time_taken:
  "(case timeout_game of
      Done (p, hs, w, fs) \<Rightarrow>
        total_time p = 36
        \<and> sum_list (map time_taken (question_details p)) = 38
        \<and> score p = 1
        \<and> length (filter is_correct (question_details p)) = 1
        \<and> map timed_out (question_details p) = [False, True]
    | _ \<Rightarrow> False)"
proof -
  from timeout_game_result obtain fs where eq:
    "timeout_game =
     Done (demo_player\<lparr>question_details :=
              [detail_of demo_question (Some 1) 6, detail_of demo_question None 32],
              score := 1, total_time := 36\<rparr>,
           True, \<lparr>clock = [], keys = []\<rparr>, fs)" ..
  show ?thesis unfolding eq by (simp add: detail_of_simps demo_question_def)
qed

subsection \<open>Selection\<close>






subsection \<open>The high-score test\<close>

lemma hd_sort_key_least:
  assumes "xs \<noteq> []"
  shows "hd (sort_key f xs) \<in> set xs \<and> (\<forall>x \<in> set xs. f (hd (sort_key f xs)) \<le> f x)"
proof -
  let ?ys = "sort_key f xs"
  from assms have ne: "?ys \<noteq> []" by (metis length_0_conv length_sort)
  then obtain y ys where ys: "?ys = y # ys" by (cases ?ys) auto
  have "sorted (map f ?ys)" by (rule sorted_sort_key)
  with ys have le: "\<forall>x \<in> set ys. f y \<le> f x" by auto
  have "set xs = set ?ys" by simp
  with ys have "set xs = insert y (set ys)" by simp
  with le ys show ?thesis by simp
qed

lemma best_entry:
  assumes "scs \<noteq> []"
  shows "score (hd (sort_key rank_key scs)) = best_existing_score scs
       \<and> total_time (hd (sort_key rank_key scs)) = best_existing_time scs"
proof -
  let ?b = "hd (sort_key rank_key scs)"
  from hd_sort_key_least [OF assms, of rank_key]
  have mem: "?b \<in> set scs" and least: "\<forall>x \<in> set scs. rank_key ?b \<le> rank_key x" by auto
  have sc: "\<forall>x \<in> set scs. score x \<le> score ?b"
    using least by (auto simp: rank_key_def)
  have s: "score ?b = best_existing_score scs"
    unfolding best_existing_score_def
    by (rule Max_eqI [symmetric]) (use mem sc in auto)
  have tm: "\<forall>x \<in> set scs. score x = score ?b \<longrightarrow> total_time ?b \<le> total_time x"
    using least by (auto simp: rank_key_def)
  have "total_time ?b = best_existing_time scs"
    unfolding best_existing_time_def s [symmetric]
    by (rule Min_eqI [symmetric]) (use mem tm in auto)
  with s show ?thesis by simp
qed

text \<open>
  Claim C5. The test is true exactly when the scoreboard loaded before the save is empty, or
  the player's score is above the best existing score, or it equals the best score and the
  player's time is strictly below the lowest time recorded with that score.
\<close>

theorem is_high_score_iff:
  "is_high_score scs p \<longleftrightarrow>
     scs = [] \<or> score p > best_existing_score scs
     \<or> (score p = best_existing_score scs \<and> total_time p < best_existing_time scs)"
proof (cases "scs = []")
  case True
  then show ?thesis by (simp add: is_high_score_def)
next
  case False
  from best_entry [OF False] False show ?thesis
    by (auto simp: is_high_score_def Let_def)
qed

theorem is_high_score_iff_witness:
  "is_high_score [] (player_with 3 20)
   \<and> is_high_score [entry_with 3 15] (player_with 3 10)
   \<and> \<not> is_high_score [entry_with 3 15] (player_with 3 20)
   \<and> \<not> is_high_score [entry_with 3 15] (player_with 3 15)
   \<and> is_high_score [entry_with 3 15, entry_with 2 1] (player_with 4 99)"
  using is_high_score_iff [of "[]" "player_with 3 20"]
    is_high_score_iff [of "[entry_with 3 15]" "player_with 3 10"]
    is_high_score_iff [of "[entry_with 3 15]" "player_with 3 20"]
    is_high_score_iff [of "[entry_with 3 15]" "player_with 3 15"]
    is_high_score_iff [of "[entry_with 3 15, entry_with 2 1]" "player_with 4 99"]
  by (simp add: best_existing_score_def best_existing_time_def entry_with_def player_with_def)

subsection \<open>Ranking\<close>

lemma rank_key_le_ranks_before: "rank_key a \<le> rank_key b \<Longrightarrow> ranks_before a b"
  by (auto simp: rank_key_def ranks_before_def)

lemma sorted_wrt_ranks_before_sort: "sorted_wrt ranks_before (sort_key rank_key scs)"
proof -
  have "sorted (map rank_key (sort_key rank_key scs))" by (rule sorted_sort_key)
  then have "sorted_wrt (\<lambda>a b. rank_key a \<le> rank_key b) (sort_key rank_key scs)"
    by (simp add: sorted_map)
  then show ?thesis
    by (rule sorted_wrt_mono_rel [rotated]) (simp add: rank_key_le_ranks_before)
qed

lemma same_score_time_iff: "(score x = s \<and> total_time x = t) \<longleftrightarrow> rank_key x = (- s, t)"
  by (auto simp: rank_key_def)

lemma ranking_example:
  "rankings [entry_with 5 10, entry_with 5 8, entry_with 3 1] 10
     = [entry_with 5 8, entry_with 5 10, entry_with 3 1]"
  by (simp add: rankings_def rank_key_def entry_with_def)

text \<open>
  Claim C6. The ranking has at most \<open>limit\<close> entries, each entry ranks before the ones after
  it (higher score, or the same score and no more time), and it is the first \<open>limit\<close> entries
  of the full ranking, which is a rearrangement of the scoreboard that keeps the entries of
  equal score and time in their order. The example of the specification evaluates as
  stated, and the two screens show the rankings of limit 10 and 5.
\<close>

theorem rankings_sorted_stable_limited:
  "length (rankings scs limit) \<le> limit
   \<and> sorted_wrt ranks_before (rankings scs limit)
   \<and> rankings scs limit = take limit (rankings scs (length scs))
   \<and> mset (rankings scs (length scs)) = mset scs
   \<and> (\<forall>s t. filter (\<lambda>x. score x = s \<and> total_time x = t) (rankings scs (length scs))
            = filter (\<lambda>x. score x = s \<and> total_time x = t) scs)
   \<and> rankings [entry_with 5 10, entry_with 5 8, entry_with 3 1] 10
        = [entry_with 5 8, entry_with 5 10, entry_with 3 1]
   \<and> display_scoreboard scs = rankings scs 10
   \<and> display_top5_with_emails scs = rankings scs 5"
proof (intro conjI allI)
  show "length (rankings scs limit) \<le> limit" by (simp add: rankings_def)
  show "sorted_wrt ranks_before (rankings scs limit)"
    unfolding rankings_def by (rule sorted_wrt_take) (rule sorted_wrt_ranks_before_sort)
  show "rankings scs limit = take limit (rankings scs (length scs))"
    by (simp add: rankings_def)
  show "mset (rankings scs (length scs)) = mset scs" by (simp add: rankings_def)
  show "filter (\<lambda>x. score x = s \<and> total_time x = t) (rankings scs (length scs))
            = filter (\<lambda>x. score x = s \<and> total_time x = t) scs" for s t
    unfolding same_score_time_iff by (simp add: rankings_def sort_key_stable)
  show "rankings [entry_with 5 10, entry_with 5 8, entry_with 3 1] 10
        = [entry_with 5 8, entry_with 5 10, entry_with 3 1]" by (rule ranking_example)
  show "display_scoreboard scs = rankings scs 10" by (simp add: display_scoreboard_def rankings_def)
  show "display_top5_with_emails scs = rankings scs 5"
    by (simp add: display_top5_with_emails_def rankings_def)
qed

subsection \<open>The stores\<close>






text \<open>
  Claim C9. A store that holds the bare list of entries and a store that holds the same
  entries under a header of any title, description and date give the same scores, and the
  save and the game-over screen do the same on both.
\<close>

theorem legacy_list_loads_like_wrapped:
  "load_scoreboard (fs\<lparr>scoreboard_file := Parsed (JList scs)\<rparr>) = Inr (scores_only scs)
   \<and> load_scoreboard (fs\<lparr>scoreboard_file := Parsed (JDict
         \<lparr>quiz_title = t, quiz_description = d, last_updated = u, scores = Some scs\<rparr>)\<rparr>)
       = Inr \<lparr>quiz_title = t, quiz_description = d, last_updated = u, scores = Some scs\<rparr>
   \<and> get_scores (scores_only scs) = scs
   \<and> get_scores \<lparr>quiz_title = t, quiz_description = d, last_updated = u, scores = Some scs\<rparr> = scs
   \<and> save_score md now p (fs\<lparr>scoreboard_file := Parsed (JList scs)\<rparr>)
       = save_score md now p (fs\<lparr>scoreboard_file := Parsed (JDict
           \<lparr>quiz_title = t, quiz_description = d, last_updated = u, scores = Some scs\<rparr>)\<rparr>)
   \<and> show_game_over p w (fs\<lparr>scoreboard_file := Parsed (JList scs)\<rparr>)
       = show_game_over p w (fs\<lparr>scoreboard_file := Parsed (JDict
           \<lparr>quiz_title = t, quiz_description = d, last_updated = u, scores = Some scs\<rparr>)\<rparr>)"
  by (simp add: load_scoreboard_def get_scores_def scores_only_def save_score_def show_game_over_def)

end
